theory Spec2Isabelle
  imports Main "HOL-Library.Word"
begin

unbundle bit_operations_syntax

section \<open>HTTP server spec (package httpserver)\<close>

text \<open>
  The structs \<open>Path\<close>, \<open>Rule\<close> and \<open>Spec\<close> of package httpserver. The types
  \<open>scheduler.ObjectMeta\<close> and \<open>ipfilter.Spec\<close> are declared in other packages and are
  type parameters \<open>'m\<close> and \<open>'f\<close>; a nil pointer is \<open>None\<close>. The unexported compiled
  regular expressions \<open>hostRE\<close> and \<open>pathRE\<close> are caches and are left out.
\<close>

record 'f Path =
  Path_IPFilter :: "'f option"
  Path_Path :: string
  PathPrefix :: string
  PathRegexp :: string
  Methods :: "string list"
  Backend :: string

record 'f Rule =
  Rule_IPFilter :: "'f option"
  Host :: string
  HostRegexp :: string
  Paths :: "'f Path list"

record ('m, 'f) Spec =
  V :: string
  ObjectMeta :: 'm
  Port :: "16 word"
  KeepAlive :: bool
  KeepAliveTimeout :: string
  MaxConnections :: "32 word"
  HTTPS :: bool
  CertBase64 :: string
  KeyBase64 :: string
  CacheSize :: "32 word"
  IPFilter :: "'f option"
  Rules :: "'f Rule list"

text \<open>
  The standard library as \<open>Validate\<close> uses it: \<open>base64.StdEncoding.DecodeString\<close>
  (its error is dropped by the caller, only the bytes are kept) and
  \<open>tls.X509KeyPair\<close>, which returns a certificate or an error (\<open>None\<close>).
\<close>

record 'cert tls_lib =
  DecodeString :: "string \<Rightarrow> string"
  X509KeyPair :: "string \<Rightarrow> string \<Rightarrow> 'cert option"

datatype validate_error =
    CertEmpty            \<comment> \<open>"cert is empty when https enabled"\<close>
  | KeyEmpty             \<comment> \<open>"key is empty when https enabled"\<close>
  | X509KeyPairFailed    \<comment> \<open>"generate x509 key pair failed: ..."\<close>

text \<open>\<open>tls.Config\<close> with the one field \<open>tlsConfig\<close> sets.\<close>

record 'cert tls_Config =
  Certificates :: "'cert list"

definition tlsConfig ::
  "'cert tls_lib \<Rightarrow> ('m, 'f) Spec \<Rightarrow> validate_error + 'cert tls_Config" where
  "tlsConfig lib spec =
     (let certPem = DecodeString lib (CertBase64 spec);
          keyPem = DecodeString lib (KeyBase64 spec)
      in case X509KeyPair lib certPem keyPem of
           None \<Rightarrow> Inl X509KeyPairFailed
         | Some cert \<Rightarrow> Inr \<lparr>Certificates = [cert]\<rparr>)"

definition Validate :: "'cert tls_lib \<Rightarrow> ('m, 'f) Spec \<Rightarrow> validate_error option" where
  "Validate lib spec =
     (if HTTPS spec then
        if CertBase64 spec = [] then Some CertEmpty
        else if KeyBase64 spec = [] then Some KeyEmpty
        else (case tlsConfig lib spec of
                Inl err \<Rightarrow> Some err
              | Inr _ \<Rightarrow> None)
      else None)"

section \<open>Operation log (package gateway)\<close>

subsection \<open>Formatting and parsing sequence numbers\<close>

type_synonym u64 = "64 word"

text \<open>
  \<open>fmt.Sprintf("%d", n)\<close> for an unsigned \<open>n\<close>: the decimal digits, most significant
  first, no sign and no leading zero (\<open>"0"\<close> for zero).
\<close>

definition digit_char :: "nat \<Rightarrow> char" where
  "digit_char d = char_of (48 + d)"

fun dec_digits :: "nat \<Rightarrow> string" where
  "dec_digits n =
     (if n < 10 then [digit_char n]
      else dec_digits (n div 10) @ [digit_char (n mod 10)])"

declare dec_digits.simps [simp del]

definition sprintf_d :: "u64 \<Rightarrow> string" where
  "sprintf_d w = dec_digits (unat w)"

text \<open>
  \<open>strconv.ParseUint(s, 0, 64)\<close>. Base 0 takes the base from the prefix of \<open>s\<close>
  (\<open>0b\<close> 2, \<open>0o\<close> 8, \<open>0x\<close> 16, another leading \<open>0\<close> 8, otherwise 10) and allows
  underscores where \<open>underscoreOK\<close> accepts them (the library's flag \<open>base0\<close> is
  true throughout, the base argument being 0). The accumulator is a \<open>nat\<close>: the
  library's test \<open>n1 < n || n1 > maxVal\<close> on the wrapped sum is the test
  \<open>n * base + d > maxVal\<close> on the exact one, since \<open>n < cutoff\<close> keeps \<open>n * base\<close>
  in range. Any error is \<open>None\<close>: the caller only looks at whether there is one.
\<close>

definition lower :: "char \<Rightarrow> char" where
  "lower c = char_of ((of_char c :: nat) OR 32)"

definition is_digit_char :: "char \<Rightarrow> bool" where
  "is_digit_char c = (48 \<le> (of_char c :: nat) \<and> (of_char c :: nat) \<le> 57)"

definition is_letter_char :: "char \<Rightarrow> bool" where
  "is_letter_char c = (97 \<le> (of_char (lower c) :: nat) \<and> (of_char (lower c) :: nat) \<le> 122)"

definition maxVal :: nat where
  "maxVal = 2 ^ 64 - 1"

fun parse_loop :: "nat \<Rightarrow> string \<Rightarrow> nat \<Rightarrow> bool \<Rightarrow> (nat \<times> bool) option" where
  "parse_loop base [] n underscores = Some (n, underscores)"
| "parse_loop base (c # cs) n underscores =
     (if c = CHR ''_'' then parse_loop base cs n True
      else if \<not> is_digit_char c \<and> \<not> is_letter_char c then None
      else
        (let d = (if is_digit_char c then (of_char c :: nat) - 48
                  else (of_char (lower c) :: nat) - 97 + 10)
         in if d \<ge> base then None
            else if n \<ge> maxVal div base + 1 then None
            else if n * base + d > maxVal then None
            else parse_loop base cs (n * base + d) underscores))"

text \<open>
  \<open>underscoreOK\<close>: \<open>saw\<close> is the class of the last character seen, \<open>CHR ''0''\<close> for
  a digit (or the base prefix), \<open>CHR ''_''\<close> for an underscore, \<open>CHR ''!''\<close> for
  anything else, \<open>CHR ''^''\<close> at the beginning.
\<close>

fun underscore_loop :: "bool \<Rightarrow> string \<Rightarrow> char \<Rightarrow> bool" where
  "underscore_loop hex [] saw = (saw \<noteq> CHR ''_'')"
| "underscore_loop hex (c # cs) saw =
     (if is_digit_char c \<or>
         (hex \<and> 97 \<le> (of_char (lower c) :: nat) \<and> (of_char (lower c) :: nat) \<le> 102)
      then underscore_loop hex cs (CHR ''0'')
      else if c = CHR ''_'' then
        (if saw \<noteq> CHR ''0'' then False else underscore_loop hex cs (CHR ''_''))
      else if saw = CHR ''_'' then False
      else underscore_loop hex cs (CHR ''!''))"

definition underscoreOK :: "string \<Rightarrow> bool" where
  "underscoreOK s0 =
     (let s = (if length s0 \<ge> 1 \<and> (hd s0 = CHR ''-'' \<or> hd s0 = CHR ''+'') then tl s0 else s0)
      in if length s \<ge> 2 \<and> hd s = CHR ''0'' \<and>
            (lower (s ! 1) = CHR ''b'' \<or> lower (s ! 1) = CHR ''o'' \<or> lower (s ! 1) = CHR ''x'')
         then underscore_loop (lower (s ! 1) = CHR ''x'') (drop 2 s) (CHR ''0'')
         else underscore_loop False s (CHR ''^''))"

definition ParseUint :: "string \<Rightarrow> u64 option" where
  "ParseUint s =
     (if s = [] then None
      else
        (let (base, digits) =
               (if hd s = CHR ''0'' then
                  if length s \<ge> 3 \<and> lower (s ! 1) = CHR ''b'' then (2::nat, drop 2 s)
                  else if length s \<ge> 3 \<and> lower (s ! 1) = CHR ''o'' then (8, drop 2 s)
                  else if length s \<ge> 3 \<and> lower (s ! 1) = CHR ''x'' then (16, drop 2 s)
                  else (8, tl s)
                else (10, s))
         in case parse_loop base digits 0 False of
              None \<Rightarrow> None
            | Some (n, underscores) \<Rightarrow>
                if underscores \<and> \<not> underscoreOK s then None else Some (of_nat n)))"


subsection \<open>The durable keyed store\<close>

text \<open>
  The badger database as the log uses it. The committed database is a map from keys to
  values. A transaction reads from the snapshot taken when it was opened, overlaid with
  its own pending writes; \<open>Discard\<close> drops the pending writes, \<open>Commit\<close> applies them.
  Reads are reliable: \<open>Get\<close> fails exactly when the key is absent
  (\<open>ErrKeyNotFound\<close>) and \<open>item.Value()\<close> returns the stored bytes. Writes can
  fail: whether \<open>Set\<close> or \<open>Commit\<close> returns an error is decided by the environment
  (\<open>set_fails\<close>, \<open>commit_fails\<close>). A failed \<open>Set\<close> stages nothing, a failed
  \<open>Commit\<close> leaves the database as it was.
\<close>

type_synonym store = "string \<rightharpoonup> string"

record Txn =
  snapshot :: store
  pending :: store
  update :: bool

definition NewTransaction :: "store \<Rightarrow> bool \<Rightarrow> Txn" where
  "NewTransaction d upd = \<lparr>snapshot = d, pending = Map.empty, update = upd\<rparr>"

definition txn_Get :: "Txn \<Rightarrow> string \<Rightarrow> string option" where
  "txn_Get txn key = (snapshot txn ++ pending txn) key"

subsection \<open>Operations, failure kinds and the environment\<close>

text \<open>
  The struct \<open>Operation\<close> is declared in another file of the package; \<open>Append\<close>
  reads six pointer fields of it, each nil (\<open>None\<close>) or pointing to a content, of
  type \<open>'c\<close> here.
\<close>

record 'c Operation =
  ContentCreatePlugin :: "'c option"
  ContentUpdatePlugin :: "'c option"
  ContentDeletePlugin :: "'c option"
  ContentCreatePipeline :: "'c option"
  ContentUpdatePipeline :: "'c option"
  ContentDeletePipeline :: "'c option"

datatype OperationFailureType =
    NoneOperationFailure
  | OperationGeneralFailure
  | OperationTargetNotFoundFailure
  | OperationNotAcceptableFailure
  | OperationConflictFailure
  | OperationUnknownFailure

datatype ClusterErrorType =
    NoneClusterError
  | InternalServerError
  | OperationInvalidSeqError
  | OperationInvalidContentError
  | OperationSeqConflictError
  | OperationGeneralFailureError
  | OperationTargetNotFoundFailureError
  | OperationNotAcceptableFailureError
  | OperationConflictFailureError
  | OperationUnknownFailureError

text \<open>
  Modelled from the spec: the declarations of \<open>OperationFailureType\<close>,
  \<open>ClusterErrorType\<close> and their constants are in another file of the package, which
  is not available. The spec lists both enumerations with a member None that stands for
  "no failure" and "no error"; \<open>Append\<close> stores the constant
  \<open>NoneOperationFailure\<close> into a variable of type \<open>ClusterErrorType\<close>, and the value
  that variable then holds is the None member of \<open>ClusterErrorType\<close>.
\<close>

definition NoneOperationFailure_as_ClusterErrorType :: ClusterErrorType where
  "NoneOperationFailure_as_ClusterErrorType = NoneClusterError"

text \<open>
  The Go \<open>error\<close> values the log returns, one constructor per \<open>fmt.Errorf\<close> of the
  source, carrying the sequence number the message prints.
\<close>

datatype oplog_error =
    ErrInvalidSequential          \<comment> \<open>"invalid sequential operation"\<close>
  | ErrOperationConflict          \<comment> \<open>"operation conflict"\<close>
  | ErrContentEmpty               \<comment> \<open>"operation content is empty"\<close>
  | ErrMarshal u64                \<comment> \<open>"marshal operation (sequence=%d) ... failed"\<close>
  | ErrSet u64                    \<comment> \<open>"set operation (sequence=%d) to badger failed"\<close>
  | ErrUpdateMaxSeq               \<comment> \<open>"update max operation sequence failed"\<close>
  | ErrOperationFailed u64 string \<comment> \<open>"operation (sequence=%d) failed: %v"\<close>
  | ErrCommit                     \<comment> \<open>"commit transaction failed"\<close>
  | ErrInvalidBegin               \<comment> \<open>"invalid begin sequential operation"\<close>
  | ErrGet u64                    \<comment> \<open>"get operation (sequence=%d) from badger failed"\<close>
  | ErrGetEmpty u64               \<comment> \<open>"get empty operation (sequence=%d) from badger"\<close>
  | ErrUnmarshal u64              \<comment> \<open>"unmarshal operation (sequence=%d) ... failed"\<close>

text \<open>
  What the log takes from outside: \<open>json.Marshal\<close> and \<open>json.Unmarshal\<close> on
  operations (\<open>None\<close> is an error) and the store's write failures.
\<close>

record 'c env =
  marshal :: "'c Operation \<Rightarrow> string option"
  unmarshal :: "string \<Rightarrow> 'c Operation option"
  set_fails :: "Txn \<Rightarrow> string \<Rightarrow> string \<Rightarrow> bool"
  commit_fails :: "Txn \<Rightarrow> bool"

definition txn_Set :: "'c env \<Rightarrow> Txn \<Rightarrow> string \<Rightarrow> string \<Rightarrow> Txn option" where
  "txn_Set e txn key val =
     (if set_fails e txn key val then None
      else Some (txn\<lparr>pending := (pending txn)(key \<mapsto> val)\<rparr>))"

definition txn_Commit :: "'c env \<Rightarrow> store \<Rightarrow> Txn \<Rightarrow> store option" where
  "txn_Commit e d txn = (if commit_fails e txn then None else Some (d ++ pending txn))"

text \<open>
  A callback of type \<open>OperationAppended\<close> returns an error (\<open>None\<close> is nil) and a
  failure kind. It applies the operation to live state outside the log: that state is
  \<open>'x\<close>, passed in and returned.
\<close>

type_synonym ('c, 'x) OperationAppended =
  "u64 \<Rightarrow> 'c Operation \<Rightarrow> 'x \<Rightarrow> (string option \<times> OperationFailureType) \<times> 'x"

text \<open>
  The struct \<open>opLog\<close>. \<open>operationAppendedCallbacks\<close> is the list that
  \<open>GetCallbacks()\<close> returns, in invocation order; the mutex is left out, every call
  being modelled as atomic.
\<close>

record ('c, 'x) opLog =
  db :: store
  operationAppendedCallbacks :: "('c, 'x) OperationAppended list"
  path :: string

definition maxSeqKey :: string where
  "maxSeqKey = ''maxSeqKey''"

subsection \<open>The lockless helpers\<close>

text \<open>
  The methods \<open>_locklessReadMaxSeq\<close>, \<open>_locklessReadMinSeq\<close>,
  \<open>_locklessWriteMaxSeq\<close> and \<open>_locklessIncreaseMaxSeq\<close>, without the leading
  underscore. An unreadable or unparsable max-sequence record reads as 0.
\<close>

definition locklessReadMaxSeq :: "Txn \<Rightarrow> u64" where
  "locklessReadMaxSeq txn =
     (case txn_Get txn maxSeqKey of
        None \<Rightarrow> 0
      | Some v \<Rightarrow>
          (let maxSeq = (if v = [] then ''0'' else v)
           in case ParseUint maxSeq of None \<Rightarrow> 0 | Some ms \<Rightarrow> ms))"

definition locklessReadMinSeq :: "Txn \<Rightarrow> u64" where
  "locklessReadMinSeq txn = (if locklessReadMaxSeq txn > 0 then 1 else 0)"

definition locklessWriteMaxSeq :: "'c env \<Rightarrow> Txn \<Rightarrow> u64 \<Rightarrow> (u64 \<times> Txn) option" where
  "locklessWriteMaxSeq e txn ms =
     (case txn_Set e txn maxSeqKey (sprintf_d ms) of
        None \<Rightarrow> None
      | Some txn' \<Rightarrow> Some (ms, txn'))"

definition locklessIncreaseMaxSeq :: "'c env \<Rightarrow> Txn \<Rightarrow> (u64 \<times> Txn) option" where
  "locklessIncreaseMaxSeq e txn =
     (let ms = locklessReadMaxSeq txn;
          ms = ms + 1
      in locklessWriteMaxSeq e txn ms)"

definition MaxSeq :: "('c, 'x) opLog \<Rightarrow> u64" where
  "MaxSeq op = locklessReadMaxSeq (NewTransaction (db op) False)"

definition MinSeq :: "('c, 'x) opLog \<Rightarrow> u64" where
  "MinSeq op = locklessReadMinSeq (NewTransaction (db op) False)"

subsection \<open>Append\<close>

text \<open>
  The cluster error kind for a failed callback: \<open>clusterErrType\<close> starts as
  \<open>InternalServerError\<close> and the switch on the failure kind the callback reported
  overwrites it. The switch has no default case; the six constants are all the failure
  kinds there are here, so every case overwrites.
\<close>

definition clusterErrType_of :: "OperationFailureType \<Rightarrow> ClusterErrorType" where
  "clusterErrType_of failureType =
     (let clusterErrType = InternalServerError
      in case failureType of
           NoneOperationFailure \<Rightarrow> NoneOperationFailure_as_ClusterErrorType
         | OperationGeneralFailure \<Rightarrow> OperationGeneralFailureError
         | OperationTargetNotFoundFailure \<Rightarrow> OperationTargetNotFoundFailureError
         | OperationNotAcceptableFailure \<Rightarrow> OperationNotAcceptableFailureError
         | OperationConflictFailure \<Rightarrow> OperationConflictFailureError
         | OperationUnknownFailure \<Rightarrow> OperationUnknownFailureError)"

text \<open>
  The inner loop over the callbacks for one operation: the first callback that returns
  an error ends it with the error \<open>Append\<close> returns.
\<close>

fun run_callbacks ::
  "('c, 'x) OperationAppended list \<Rightarrow> u64 \<Rightarrow> 'c Operation \<Rightarrow> 'x \<Rightarrow>
     (oplog_error \<times> ClusterErrorType) option \<times> 'x" where
  "run_callbacks [] seq operation x = (None, x)"
| "run_callbacks (cb # cbs) seq operation x =
     (case cb seq operation x of
        ((Some err, failureType), x') \<Rightarrow>
          (Some (ErrOperationFailed seq err, clusterErrType_of failureType), x')
      | ((None, failureType), x') \<Rightarrow> run_callbacks cbs seq operation x')"

text \<open>
  The expressionless switch at the head of the loop body: the first content pointer
  that is not nil selects an empty case, the default case rejects the operation.
\<close>

definition has_content :: "'c Operation \<Rightarrow> bool" where
  "has_content operation =
     (if ContentCreatePlugin operation \<noteq> None then True
      else if ContentUpdatePlugin operation \<noteq> None then True
      else if ContentDeletePlugin operation \<noteq> None then True
      else if ContentCreatePipeline operation \<noteq> None then True
      else if ContentUpdatePipeline operation \<noteq> None then True
      else if ContentDeletePipeline operation \<noteq> None then True
      else False)"

text \<open>
  The loop over the batch, from index \<open>idx\<close> on. It returns the transaction with
  everything staged, or the error that ends \<open>Append\<close>; the live state comes back in
  both cases.
\<close>

fun append_loop ::
  "'c env \<Rightarrow> ('c, 'x) OperationAppended list \<Rightarrow> u64 \<Rightarrow> nat \<Rightarrow> 'c Operation list \<Rightarrow>
     Txn \<Rightarrow> 'x \<Rightarrow> ((oplog_error \<times> ClusterErrorType) + Txn) \<times> 'x" where
  "append_loop e cbs startSeq idx [] txn x = (Inr txn, x)"
| "append_loop e cbs startSeq idx (operation # rest) txn x =
     (if \<not> has_content operation then
        (Inl (ErrContentEmpty, OperationInvalidContentError), x)
      else case marshal e operation of
        None \<Rightarrow> (Inl (ErrMarshal (startSeq + of_nat idx), OperationInvalidContentError), x)
      | Some opBuff \<Rightarrow>
         (case txn_Set e txn (sprintf_d (startSeq + of_nat idx)) opBuff of
            None \<Rightarrow> (Inl (ErrSet (startSeq + of_nat idx), InternalServerError), x)
          | Some txn1 \<Rightarrow>
             (case locklessIncreaseMaxSeq e txn1 of
                None \<Rightarrow> (Inl (ErrUpdateMaxSeq, InternalServerError), x)
              | Some (ms, txn2) \<Rightarrow>
                 (case run_callbacks cbs (startSeq + of_nat idx) operation x of
                    (Some err, x') \<Rightarrow> (Inl err, x')
                  | (None, x') \<Rightarrow> append_loop e cbs startSeq (Suc idx) rest txn2 x'))))"

text \<open>
  \<open>Append\<close> returns the pair of the source (error, cluster error kind), the log and the
  live state after the call. The deferred \<open>txn.Discard()\<close> is the log coming back
  unchanged on every path but the committed one.
\<close>

definition Append ::
  "'c env \<Rightarrow> ('c, 'x) opLog \<Rightarrow> 'x \<Rightarrow> u64 \<Rightarrow> 'c Operation list \<Rightarrow>
     (oplog_error option \<times> ClusterErrorType) \<times> ('c, 'x) opLog \<times> 'x" where
  "Append e op x startSeq operations =
     (if length operations = 0 then ((None, NoneClusterError), op, x)
      else
        (let txn = NewTransaction (db op) True;
             ms = locklessReadMaxSeq txn
         in if startSeq = 0 then ((Some ErrInvalidSequential, InternalServerError), op, x)
            else if startSeq > ms + 1 then
              ((Some ErrInvalidSequential, OperationInvalidSeqError), op, x)
            else if startSeq < ms + 1 then
              ((Some ErrOperationConflict, OperationSeqConflictError), op, x)
            else
              (case append_loop e (operationAppendedCallbacks op) startSeq 0 operations txn x of
                 (Inl (err, clusterErrType), x') \<Rightarrow> ((Some err, clusterErrType), op, x')
               | (Inr txn', x') \<Rightarrow>
                  (case txn_Commit e (db op) txn' of
                     None \<Rightarrow> ((Some ErrCommit, NoneClusterError), op, x')
                   | Some d' \<Rightarrow> ((None, NoneClusterError), op\<lparr>db := d'\<rparr>, x')))))"

subsection \<open>Retrieve\<close>

function retrieve_loop ::
  "'c env \<Rightarrow> Txn \<Rightarrow> u64 \<Rightarrow> u64 \<Rightarrow> u64 \<Rightarrow> 'c Operation list \<Rightarrow>
     (oplog_error \<times> ClusterErrorType) + 'c Operation list" where
  "retrieve_loop e txn startSeq countLimit idx ret =
     (if idx < countLimit \<and> startSeq + idx \<le> locklessReadMaxSeq txn then
        (case txn_Get txn (sprintf_d (startSeq + idx)) of
           None \<Rightarrow> Inl (ErrGet (startSeq + idx), InternalServerError)
         | Some opBuff \<Rightarrow>
             if opBuff = [] then Inl (ErrGetEmpty (startSeq + idx), InternalServerError)
             else (case unmarshal e opBuff of
                     None \<Rightarrow> Inl (ErrUnmarshal (startSeq + idx), InternalServerError)
                   | Some operation \<Rightarrow>
                       retrieve_loop e txn startSeq countLimit (idx + 1) (ret @ [operation])))
      else Inr ret)"
  by pat_completeness auto
termination
proof (relation "measure (\<lambda>(e, txn, startSeq, countLimit, idx, ret). unat countLimit - unat idx)")
  show "wf (measure (\<lambda>(e :: 'c env, txn, startSeq, countLimit, idx, ret).
                       unat countLimit - unat idx))"
    by simp
next
  fix e :: "'c env" and txn :: Txn and startSeq countLimit idx :: u64
    and ret :: "'c Operation list" and x2 :: string and x2a :: "'c Operation"
  assume "idx < countLimit \<and> startSeq + idx \<le> locklessReadMaxSeq txn"
  then have lt: "idx < countLimit" by simp
  then have "unat idx < unat countLimit" by (simp add: word_less_nat_alt)
  moreover have "unat countLimit < 2 ^ 64"
    using unsigned_less [of countLimit, where 'a = nat] by simp
  moreover have "unat (idx + 1) = (unat idx + 1) mod 2 ^ 64"
    by (simp add: unat_word_ariths)
  ultimately show "((e, txn, startSeq, countLimit, idx + 1, ret @ [x2a]),
                    (e, txn, startSeq, countLimit, idx, ret))
      \<in> measure (\<lambda>(e, txn, startSeq, countLimit, idx, ret). unat countLimit - unat idx)"
    by simp
qed

declare retrieve_loop.simps [simp del]

text \<open>
  \<open>Retrieve\<close> returns the operations (a nil slice is the empty list), the error and the
  cluster error kind.
\<close>

definition Retrieve ::
  "'c env \<Rightarrow> ('c, 'x) opLog \<Rightarrow> u64 \<Rightarrow> u64 \<Rightarrow>
     'c Operation list \<times> oplog_error option \<times> ClusterErrorType" where
  "Retrieve e op startSeq countLimit =
     (let txn = NewTransaction (db op) False;
          ms = locklessReadMaxSeq txn
      in if startSeq = 0 then ([], Some ErrInvalidBegin, InternalServerError)
         else if startSeq > ms then ([], None, NoneClusterError)
         else (case retrieve_loop e txn startSeq countLimit 0 [] of
                 Inl (err, clusterErrType) \<Rightarrow> ([], Some err, clusterErrType)
               | Inr ret \<Rightarrow> (ret, None, NoneClusterError)))"


subsection \<open>The live state a batch leaves behind\<close>

text \<open>
  The live state after every callback has run on every operation of a list, the
  operations numbered from \<open>startSeq + idx\<close>: what the callbacks did outside the log,
  which no \<open>Discard\<close> undoes.
\<close>

fun callbacks_ran ::
  "('c, 'x) OperationAppended list \<Rightarrow> u64 \<Rightarrow> nat \<Rightarrow> 'c Operation list \<Rightarrow> 'x \<Rightarrow> 'x" where
  "callbacks_ran cbs startSeq idx [] x = x"
| "callbacks_ran cbs startSeq idx (operation # rest) x =
     callbacks_ran cbs startSeq (Suc idx) rest
       (snd (run_callbacks cbs (startSeq + of_nat idx) operation x))"

section \<open>Fixtures\<close>

text \<open>
  Concrete operations, environments, callbacks and logs at which the theorems below are
  instantiated. The content type is \<open>nat\<close>; the live state is the list of sequence
  numbers the callbacks were called with.
\<close>

definition opA :: "nat Operation" where
  "opA = \<lparr>ContentCreatePlugin = Some 1, ContentUpdatePlugin = None,
          ContentDeletePlugin = None, ContentCreatePipeline = None,
          ContentUpdatePipeline = None, ContentDeletePipeline = None\<rparr>"

definition opB :: "nat Operation" where
  "opB = \<lparr>ContentCreatePlugin = None, ContentUpdatePlugin = None,
          ContentDeletePlugin = None, ContentCreatePipeline = None,
          ContentUpdatePipeline = Some 2, ContentDeletePipeline = None\<rparr>"

definition marshal_AB :: "nat Operation \<Rightarrow> string option" where
  "marshal_AB operation =
     (if operation = opA then Some ''A'' else if operation = opB then Some ''B'' else None)"

definition unmarshal_AB :: "string \<Rightarrow> nat Operation option" where
  "unmarshal_AB buf =
     (if buf = ''A'' then Some opA else if buf = ''B'' then Some opB else None)"

definition env_ok :: "nat env" where
  "env_ok = \<lparr>marshal = marshal_AB, unmarshal = unmarshal_AB,
             set_fails = (\<lambda>txn key val. False), commit_fails = (\<lambda>txn. False)\<rparr>"

definition env_commit_fails :: "nat env" where
  "env_commit_fails = \<lparr>marshal = marshal_AB, unmarshal = unmarshal_AB,
             set_fails = (\<lambda>txn key val. False), commit_fails = (\<lambda>txn. True)\<rparr>"

text \<open>An environment whose \<open>json.Marshal\<close> fails on every operation but \<open>opA\<close>.\<close>

definition env_marshal_fails :: "nat env" where
  "env_marshal_fails =
     \<lparr>marshal = (\<lambda>operation. if operation = opA then Some ''A'' else None),
      unmarshal = unmarshal_AB,
      set_fails = (\<lambda>txn key val. False), commit_fails = (\<lambda>txn. False)\<rparr>"

definition cb_record :: "(nat, u64 list) OperationAppended" where
  "cb_record seq operation x = ((None, NoneOperationFailure), x @ [seq])"

definition cb_fail_at_3 :: "(nat, u64 list) OperationAppended" where
  "cb_fail_at_3 seq operation x =
     (if seq = 3 then ((Some ''rejected'', OperationNotAcceptableFailure), x @ [seq])
      else ((None, NoneOperationFailure), x @ [seq]))"

definition cb_fail_none :: "(nat, u64 list) OperationAppended" where
  "cb_fail_none seq operation x = ((Some ''failed'', NoneOperationFailure), x @ [seq])"

text \<open>The log as \<open>NewOPLog\<close> leaves it on an empty directory, with the given callbacks.\<close>

definition log0 :: "(nat, u64 list) OperationAppended list \<Rightarrow> (nat, u64 list) opLog" where
  "log0 cbs = \<lparr>db = [maxSeqKey \<mapsto> ''0''], operationAppendedCallbacks = cbs,
               path = ''/oplog''\<rparr>"

text \<open>A log holding \<open>opA\<close> at sequence number 1 and \<open>opB\<close> at 2.\<close>

definition log2 :: "(nat, u64 list) opLog" where
  "log2 = \<lparr>db = [maxSeqKey \<mapsto> ''2'', ''1'' \<mapsto> ''A'', ''2'' \<mapsto> ''B''],
           operationAppendedCallbacks = [], path = ''/oplog''\<rparr>"



text \<open>HTTP server specs, and a TLS library that rejects every key pair.\<close>

definition spec_http :: "(unit, unit) Spec" where
  "spec_http = \<lparr>V = [], ObjectMeta = (), Port = 80, KeepAlive = True,
                KeepAliveTimeout = ''60s'', MaxConnections = 1024, HTTPS = False,
                CertBase64 = ''Zm9v'', KeyBase64 = [], CacheSize = 0, IPFilter = None,
                Rules = []\<rparr>"

definition lib_reject :: "unit tls_lib" where
  "lib_reject = \<lparr>DecodeString = (\<lambda>s. s), X509KeyPair = (\<lambda>certPem keyPem. None)\<rparr>"

section \<open>Sequence numbers survive formatting and parsing\<close>

lemma of_char_digit_char [simp]: "d < 10 \<Longrightarrow> (of_char (digit_char d) :: nat) = 48 + d"
  by (simp add: digit_char_def)

lemma is_digit_digit_char [simp]: "d < 10 \<Longrightarrow> is_digit_char (digit_char d)"
  by (simp add: is_digit_char_def)

lemma digit_char_neq:
  assumes "d < 10" and "(of_char c :: nat) \<noteq> 48 + d"
  shows "digit_char d \<noteq> c"
proof
  assume "digit_char d = c"
  then have "(of_char (digit_char d) :: nat) = of_char c" by simp
  with assms show False by simp
qed

lemma digit_char_not_underscore [simp]: "d < 10 \<Longrightarrow> digit_char d \<noteq> CHR ''_''"
  by (rule digit_char_neq) simp_all

lemma parse_loop_append:
  "parse_loop base (xs @ ys) n u =
     (case parse_loop base xs n u of
        None \<Rightarrow> None
      | Some (n', u') \<Rightarrow> parse_loop base ys n' u')"
  by (induction xs arbitrary: n u) (auto simp: Let_def)

lemma parse_loop_dec_digits:
  "m \<le> maxVal \<Longrightarrow> parse_loop 10 (dec_digits m) 0 u = Some (m, u)"
proof (induction m rule: dec_digits.induct)
  case (1 n)
  show ?case
  proof (cases "n < 10")
    case True
    then show ?thesis using 1(2)
      by (subst dec_digits.simps) (simp add: maxVal_def)
  next
    case False
    have le: "n div 10 \<le> maxVal" using 1(2) by simp
    have below: "n div 10 < maxVal div 10 + 1" using 1(2)
      by (simp add: div_le_mono less_Suc_eq_le)
    have whole: "n div 10 * 10 + n mod 10 = n" by simp
    show ?thesis using False 1(1)[OF False le] below 1(2)
      by (subst dec_digits.simps) (simp add: parse_loop_append whole Let_def)
  qed
qed

lemma dec_digits_nonempty: "dec_digits n \<noteq> []"
  by (subst dec_digits.simps) simp

lemma hd_dec_digits: "0 < n \<Longrightarrow> hd (dec_digits n) \<noteq> CHR ''0''"
proof (induction n rule: dec_digits.induct)
  case (1 n)
  show ?case
  proof (cases "n < 10")
    case True
    have "digit_char n \<noteq> CHR ''0''"
      using True 1(2) by (intro digit_char_neq) simp_all
    then show ?thesis using True by (subst dec_digits.simps) simp
  next
    case False
    then have "0 < n div 10" by simp
    from 1(1)[OF False this] show ?thesis using False dec_digits_nonempty [of "n div 10"]
      by (subst dec_digits.simps) simp
  qed
qed

lemma ParseUint_sprintf_d [simp]: "ParseUint (sprintf_d w) = Some w"
proof (cases "w = 0")
  case True
  have "sprintf_d 0 = ''0''"
    by (simp add: sprintf_d_def dec_digits.simps digit_char_def char_of_def bit_Suc_0_iff)
  moreover have "ParseUint ''0'' = Some 0"
    by (simp add: ParseUint_def)
  ultimately show ?thesis using True by simp
next
  case False
  then have pos: "0 < unat w" by (simp add: unat_gt_0)
  have le: "unat w \<le> maxVal"
    using unsigned_less [of w, where 'a = nat] by (simp add: maxVal_def)
  show ?thesis
    using hd_dec_digits [OF pos] parse_loop_dec_digits [OF le] dec_digits_nonempty [of "unat w"]
    by (simp add: ParseUint_def sprintf_d_def)
qed

lemma sprintf_d_inj [simp]: "sprintf_d v = sprintf_d w \<longleftrightarrow> v = w"
proof
  assume "sprintf_d v = sprintf_d w"
  then have "ParseUint (sprintf_d v) = ParseUint (sprintf_d w)" by simp
  then show "v = w" by simp
qed simp

lemma sprintf_d_nonempty [simp]: "sprintf_d w \<noteq> []"
  by (simp add: sprintf_d_def dec_digits_nonempty)

lemma hd_sprintf_d_digit: "is_digit_char (hd (sprintf_d w))"
proof -
  have "is_digit_char (hd (dec_digits n))" for n
  proof (induction n rule: dec_digits.induct)
    case (1 n)
    show ?case
    proof (cases "n < 10")
      case True
      then show ?thesis by (subst dec_digits.simps) simp
    next
      case False
      with 1 dec_digits_nonempty [of "n div 10"] show ?thesis
        by (subst dec_digits.simps) simp
    qed
  qed
  then show ?thesis by (simp add: sprintf_d_def)
qed

lemma sprintf_d_neq_maxSeqKey [simp]:
  "sprintf_d w \<noteq> maxSeqKey" "maxSeqKey \<noteq> sprintf_d w"
proof -
  have "\<not> is_digit_char (hd maxSeqKey)"
    by (simp add: maxSeqKey_def is_digit_char_def)
  with hd_sprintf_d_digit [of w] show "sprintf_d w \<noteq> maxSeqKey" by metis
  then show "maxSeqKey \<noteq> sprintf_d w" by metis
qed


lemma sprintf_d_small:
  "sprintf_d 0 = ''0''" "sprintf_d 1 = ''1''" "sprintf_d 2 = ''2''" "sprintf_d 3 = ''3''"
  by (simp_all add: sprintf_d_def dec_digits.simps digit_char_def char_of_def bit_Suc_0_iff)

lemma ParseUint_small:
  "ParseUint ''0'' = Some 0" "ParseUint ''1'' = Some 1" "ParseUint ''2'' = Some 2"
  "ParseUint ''3'' = Some 3"
  using ParseUint_sprintf_d [of 0] ParseUint_sprintf_d [of 1] ParseUint_sprintf_d [of 2]
    ParseUint_sprintf_d [of 3]
  by (simp_all only: sprintf_d_small)

lemmas eval_defs = Append_def Retrieve_def Let_def NewTransaction_def locklessReadMaxSeq_def
  txn_Get_def txn_Set_def txn_Commit_def locklessIncreaseMaxSeq_def locklessWriteMaxSeq_def
  maxSeqKey_def has_content_def sprintf_d_small ParseUint_small MaxSeq_def
  opA_def opB_def marshal_AB_def unmarshal_AB_def env_ok_def log0_def log2_def
  cb_record_def cb_fail_at_3_def cb_fail_none_def env_commit_fails_def env_marshal_fails_def
  NoneOperationFailure_as_ClusterErrorType_def clusterErrType_of_def

section \<open>Staging a batch\<close>

lemma readMaxSeq_set_entry [simp]:
  "locklessReadMaxSeq (txn\<lparr>pending := p(sprintf_d k \<mapsto> v)\<rparr>) =
   locklessReadMaxSeq (txn\<lparr>pending := p\<rparr>)"
  by (simp add: locklessReadMaxSeq_def txn_Get_def map_add_def)

lemma readMaxSeq_set_maxSeq [simp]:
  "locklessReadMaxSeq (txn\<lparr>pending := p(maxSeqKey \<mapsto> sprintf_d ms)\<rparr>) = ms"
  by (simp add: locklessReadMaxSeq_def txn_Get_def map_add_def)

lemma readMaxSeq_committed:
  "locklessReadMaxSeq (NewTransaction (snapshot txn ++ pending txn) upd) = locklessReadMaxSeq txn"
  by (simp add: locklessReadMaxSeq_def txn_Get_def NewTransaction_def)

lemma append_loop_step:
  assumes "append_loop e cbs s idx (operation # rest) txn x = (Inr txn', x')"
  obtains opBuff x1 where
    "has_content operation" "marshal e operation = Some opBuff"
    "run_callbacks cbs (s + of_nat idx) operation x = (None, x1)"
    "append_loop e cbs s (Suc idx) rest
       (txn\<lparr>pending := (pending txn)(sprintf_d (s + of_nat idx) \<mapsto> opBuff,
                                      maxSeqKey \<mapsto> sprintf_d (locklessReadMaxSeq txn + 1))\<rparr>) x1
     = (Inr txn', x')"
  using assms
  by (auto simp: txn_Set_def locklessIncreaseMaxSeq_def locklessWriteMaxSeq_def Let_def
           split: option.splits if_splits prod.splits)

lemma append_loop_maxSeq:
  "append_loop e cbs s idx ops txn x = (Inr txn', x') \<Longrightarrow>
     locklessReadMaxSeq txn' = locklessReadMaxSeq txn + of_nat (length ops) \<and>
     snapshot txn' = snapshot txn"
proof (induction ops arbitrary: idx txn x)
  case Nil
  then show ?case by simp
next
  case (Cons operation rest)
  from Cons.prems obtain opBuff x1 where
    "append_loop e cbs s (Suc idx) rest
       (txn\<lparr>pending := (pending txn)(sprintf_d (s + of_nat idx) \<mapsto> opBuff,
                                      maxSeqKey \<mapsto> sprintf_d (locklessReadMaxSeq txn + 1))\<rparr>) x1
     = (Inr txn', x')"
    by (rule append_loop_step)
  from Cons.IH [OF this] show ?case by simp
qed

lemma append_loop_other_keys:
  "append_loop e cbs s idx ops txn x = (Inr txn', x') \<Longrightarrow> k \<noteq> maxSeqKey \<Longrightarrow>
     (\<And>i. i < length ops \<Longrightarrow> k \<noteq> sprintf_d (s + of_nat (idx + i))) \<Longrightarrow>
     pending txn' k = pending txn k"
proof (induction ops arbitrary: idx txn x)
  case Nil
  then show ?case by simp
next
  case (Cons operation rest)
  from Cons.prems(1) obtain opBuff x1 where step:
    "append_loop e cbs s (Suc idx) rest
       (txn\<lparr>pending := (pending txn)(sprintf_d (s + of_nat idx) \<mapsto> opBuff,
                                      maxSeqKey \<mapsto> sprintf_d (locklessReadMaxSeq txn + 1))\<rparr>) x1
     = (Inr txn', x')"
    by (rule append_loop_step)
  have later: "k \<noteq> sprintf_d (s + of_nat (Suc idx + i))" if "i < length rest" for i
    using Cons.prems(3) [of "Suc i"] that by simp
  have here: "k \<noteq> sprintf_d (s + of_nat idx)"
    using Cons.prems(3) [of 0] by simp
  from Cons.IH [OF step Cons.prems(2) later] here Cons.prems(2) show ?case by simp
qed

lemma seq_keys_distinct:
  fixes s :: u64
  assumes "0 < d" "d < 2 ^ 64"
  shows "sprintf_d (s + of_nat a) \<noteq> sprintf_d (s + of_nat (a + d))"
proof -
  have "(of_nat d :: u64) \<noteq> 0"
    using assms by (auto simp: word_of_nat_eq_0_iff dest: dvd_imp_le)
  then show ?thesis by simp
qed


lemma append_loop_entries:
  "append_loop e cbs s idx ops txn x = (Inr txn', x') \<Longrightarrow> length ops < 2 ^ 64 \<Longrightarrow>
     i < length ops \<Longrightarrow>
     \<exists>opBuff. marshal e (ops ! i) = Some opBuff \<and>
       pending txn' (sprintf_d (s + of_nat (idx + i))) = Some opBuff"
proof (induction ops arbitrary: idx txn x i)
  case Nil
  then show ?case by simp
next
  case (Cons operation rest)
  from Cons.prems(1) obtain opBuff x1 where m: "marshal e operation = Some opBuff" and step:
    "append_loop e cbs s (Suc idx) rest
       (txn\<lparr>pending := (pending txn)(sprintf_d (s + of_nat idx) \<mapsto> opBuff,
                                      maxSeqKey \<mapsto> sprintf_d (locklessReadMaxSeq txn + 1))\<rparr>) x1
     = (Inr txn', x')"
    by (rule append_loop_step)
  have len: "length rest < 2 ^ 64" using Cons.prems(2) by simp
  show ?case
  proof (cases i)
    case 0
    have "sprintf_d (s + of_nat idx) \<noteq> sprintf_d (s + of_nat (Suc idx + j))"
      if "j < length rest" for j
      using seq_keys_distinct [of "Suc j" s idx] that Cons.prems(2) by simp
    from append_loop_other_keys [OF step _ this]
    have "pending txn' (sprintf_d (s + of_nat idx)) = Some opBuff" by simp
    with m 0 show ?thesis by simp
  next
    case (Suc j)
    with Cons.prems(3) have "j < length rest" by simp
    from Cons.IH [OF step len this] Suc show ?thesis by simp
  qed
qed

lemma MaxSeq_NewTransaction [simp]:
  "locklessReadMaxSeq (NewTransaction (db op) upd) = MaxSeq op"
  by (simp add: MaxSeq_def locklessReadMaxSeq_def txn_Get_def NewTransaction_def)

lemma Append_nonempty:
  "operations \<noteq> [] \<Longrightarrow>
   Append e op x startSeq operations =
     (if startSeq = 0 then ((Some ErrInvalidSequential, InternalServerError), op, x)
      else if startSeq > MaxSeq op + 1 then
        ((Some ErrInvalidSequential, OperationInvalidSeqError), op, x)
      else if startSeq < MaxSeq op + 1 then
        ((Some ErrOperationConflict, OperationSeqConflictError), op, x)
      else
        (case append_loop e (operationAppendedCallbacks op) startSeq 0 operations
                (NewTransaction (db op) True) x of
           (Inl (err, clusterErrType), x') \<Rightarrow> ((Some err, clusterErrType), op, x')
         | (Inr txn', x') \<Rightarrow>
            (if commit_fails e txn' then ((Some ErrCommit, NoneClusterError), op, x')
             else ((None, NoneClusterError), op\<lparr>db := db op ++ pending txn'\<rparr>, x'))))"
  by (auto simp: Append_def Let_def txn_Commit_def split: prod.splits sum.splits)

lemma Append_success:
  assumes "Append e op x startSeq operations = ((None, kind), op', x')"
      and "operations \<noteq> []"
  obtains txn' where
    "startSeq \<noteq> 0" "startSeq = MaxSeq op + 1"
    "append_loop e (operationAppendedCallbacks op) startSeq 0 operations
       (NewTransaction (db op) True) x = (Inr txn', x')"
    "op' = op\<lparr>db := db op ++ pending txn'\<rparr>"
proof -
  note A = assms(1) [unfolded Append_nonempty [OF assms(2)]]
  have ne: "startSeq \<noteq> 0"
    using A by (cases "startSeq = 0") simp_all
  have ngt: "\<not> startSeq > MaxSeq op + 1"
    using A ne by (cases "startSeq > MaxSeq op + 1") simp_all
  have nlt: "\<not> startSeq < MaxSeq op + 1"
    using A ne ngt by (cases "startSeq < MaxSeq op + 1") simp_all
  have eq: "startSeq = MaxSeq op + 1"
    using ngt nlt by simp
  obtain r x1 where loop:
    "append_loop e (operationAppendedCallbacks op) startSeq 0 operations
       (NewTransaction (db op) True) x = (r, x1)"
    by (cases "append_loop e (operationAppendedCallbacks op) startSeq 0 operations
       (NewTransaction (db op) True) x")
  from A ne ngt nlt loop obtain txn' where
    "r = Inr txn'" "x1 = x'" "op' = op\<lparr>db := db op ++ pending txn'\<rparr>"
    by (cases r) (auto split: if_splits)
  with that [OF ne eq] loop show thesis by simp
qed

lemma MaxSeq_after_commit:
  assumes "snapshot txn' = db op"
  shows "MaxSeq (op\<lparr>db := db op ++ pending txn'\<rparr>) = locklessReadMaxSeq txn'"
  using readMaxSeq_committed [of txn' False] assms by (simp add: MaxSeq_def)

text \<open>
  C4. A non-empty batch appended at \<open>startSeq = MaxSeq() + 1\<close>: if \<open>Append\<close> returns
  success (a nil error), then \<open>MaxSeq()\<close> afterwards is the old \<open>MaxSeq()\<close> plus the
  number of operations, and operation \<open>i\<close> is persisted, as \<open>json.Marshal\<close> gave it,
  under the decimal string of \<open>startSeq + i\<close>. Sequence numbers are \<open>uint64\<close>, so the
  sum is the machine sum; where it does not pass \<open>2^64 - 1\<close> it is the exact sum. The
  length of a Go slice is an \<open>int\<close>, hence below \<open>2^63\<close>.
\<close>

theorem Append_success_MaxSeq_and_entries:
  assumes "operations \<noteq> []"
      and "startSeq = MaxSeq op + 1"
      and "Append e op x startSeq operations = ((None, NoneClusterError), op', x')"
      and "length operations < 2 ^ 63"
  shows "MaxSeq op' = MaxSeq op + of_nat (length operations) \<and>
         (unat (MaxSeq op) + length operations < 2 ^ 64 \<longrightarrow>
            unat (MaxSeq op') = unat (MaxSeq op) + length operations) \<and>
         (\<forall>i<length operations. \<exists>opBuff.
            marshal e (operations ! i) = Some opBuff \<and>
            db op' (sprintf_d (startSeq + of_nat i)) = Some opBuff)"
proof -
  from assms(3,1) obtain txn' where
    loop: "append_loop e (operationAppendedCallbacks op) startSeq 0 operations
             (NewTransaction (db op) True) x = (Inr txn', x')"
    and op': "op' = op\<lparr>db := db op ++ pending txn'\<rparr>"
    by (rule Append_success)
  from append_loop_maxSeq [OF loop] have
    ms: "locklessReadMaxSeq txn' = MaxSeq op + of_nat (length operations)"
    and snap: "snapshot txn' = db op"
    by (simp_all, simp add: NewTransaction_def)
  have 1: "MaxSeq op' = MaxSeq op + of_nat (length operations)"
    using MaxSeq_after_commit [OF snap] ms op' by simp
  have 2: "unat (MaxSeq op') = unat (MaxSeq op) + length operations"
    if "unat (MaxSeq op) + length operations < 2 ^ 64"
    using that by (simp add: 1 unat_word_ariths unat_of_nat)
  have 3: "\<exists>opBuff. marshal e (operations ! i) = Some opBuff \<and>
             db op' (sprintf_d (startSeq + of_nat i)) = Some opBuff"
    if "i < length operations" for i
  proof -
    have "length operations < 2 ^ 64" using assms(4)
      by (rule less_trans) simp
    from append_loop_entries [OF loop this that] obtain opBuff where
      "marshal e (operations ! i) = Some opBuff"
      "pending txn' (sprintf_d (startSeq + of_nat i)) = Some opBuff"
      by auto
    then show ?thesis by (auto simp: op' map_add_def)
  qed
  from 1 2 3 show ?thesis by blast
qed


theorem Append_success_MaxSeq_and_entries_witness:
  "[opA, opB] \<noteq> [] \<and> (1 :: u64) = MaxSeq (log0 [cb_record]) + 1 \<and>
   fst (Append env_ok (log0 [cb_record]) [] 1 [opA, opB]) = (None, NoneClusterError) \<and>
   length [opA, opB] < 2 ^ 63 \<and>
   MaxSeq (fst (snd (Append env_ok (log0 [cb_record]) [] 1 [opA, opB]))) = 2 \<and>
   db (fst (snd (Append env_ok (log0 [cb_record]) [] 1 [opA, opB]))) ''1'' = Some ''A'' \<and>
   db (fst (snd (Append env_ok (log0 [cb_record]) [] 1 [opA, opB]))) ''2'' = Some ''B''"
proof -
  let ?r = "Append env_ok (log0 [cb_record]) [] 1 [opA, opB]"
  have ok: "fst ?r = (None, NoneClusterError)"
    by (simp add: eval_defs)
  then have res: "?r = ((None, NoneClusterError), fst (snd ?r), snd (snd ?r))"
    by (metis prod.collapse)
  have ms: "(1 :: u64) = MaxSeq (log0 [cb_record]) + 1"
    by (simp add: eval_defs)
  have len: "length [opA, opB] < 2 ^ 63"
    by simp
  have mA: "marshal env_ok opA = Some ''A''" and mB: "marshal env_ok opB = Some ''B''"
    by (simp_all add: eval_defs)
  from Append_success_MaxSeq_and_entries [OF _ ms res len]
  have max: "MaxSeq (fst (snd ?r)) = MaxSeq (log0 [cb_record]) + of_nat (length [opA, opB])"
    and ent: "\<forall>i<length [opA, opB]. \<exists>opBuff. marshal env_ok ([opA, opB] ! i) = Some opBuff \<and>
           db (fst (snd ?r)) (sprintf_d (1 + of_nat i)) = Some opBuff"
    by simp_all
  have "MaxSeq (fst (snd ?r)) = 2"
    using max ms by simp
  moreover have "db (fst (snd ?r)) ''1'' = Some ''A''"
    using ent [rule_format, of 0] mA by (simp add: sprintf_d_small)
  moreover have "db (fst (snd ?r)) ''2'' = Some ''B''"
    using ent [rule_format, of 1] mB by (simp add: sprintf_d_small)
  ultimately have "MaxSeq (fst (snd ?r)) = 2 \<and> db (fst (snd ?r)) ''1'' = Some ''A'' \<and>
    db (fst (snd ?r)) ''2'' = Some ''B''"
    by simp
  with ok ms show ?thesis by simp
qed

section \<open>Rejected and failed appends\<close>

text \<open>
  C9. An empty batch returns success with no error for every \<open>startSeq\<close>, zero and
  values beyond \<open>MaxSeq() + 1\<close> included, and returns the log and the live state as
  they were: the length check comes before any look at the sequence number.
\<close>

theorem Append_empty_batch:
  "Append e op x startSeq [] = ((None, NoneClusterError), op, x)"
  by (simp add: Append_def)

text \<open>
  C3. A non-empty batch at a \<open>startSeq\<close> other than \<open>MaxSeq() + 1\<close> fails: with
  Internal for \<open>startSeq = 0\<close>, InvalidSeq for \<open>startSeq > MaxSeq() + 1\<close> and
  SeqConflict for \<open>0 < startSeq < MaxSeq() + 1\<close>. The log comes back as it was, so
  \<open>MaxSeq()\<close> and every entry are unchanged. \<open>MaxSeq() + 1\<close> is the \<open>uint64\<close> sum
  the code computes.
\<close>

theorem Append_wrong_startSeq:
  assumes "operations \<noteq> []" and "startSeq \<noteq> MaxSeq op + 1"
  shows "\<exists>err kind. Append e op x startSeq operations = ((Some err, kind), op, x) \<and>
           (startSeq = 0 \<longrightarrow> kind = InternalServerError) \<and>
           (startSeq > MaxSeq op + 1 \<longrightarrow> kind = OperationInvalidSeqError) \<and>
           (0 < startSeq \<and> startSeq < MaxSeq op + 1 \<longrightarrow> kind = OperationSeqConflictError)"
proof (cases "startSeq = 0")
  case True
  then show ?thesis by (simp add: Append_nonempty [OF assms(1)])
next
  case False
  then have pos: "0 < startSeq" by (simp add: word_neq_0_conv)
  show ?thesis
  proof (cases "startSeq > MaxSeq op + 1")
    case True
    then have "\<not> startSeq < MaxSeq op + 1" by simp
    with True False show ?thesis by (simp add: Append_nonempty [OF assms(1)])
  next
    case ngt: False
    with assms(2) have "startSeq < MaxSeq op + 1" by simp
    with False ngt show ?thesis by (simp add: Append_nonempty [OF assms(1)])
  qed
qed

theorem Append_wrong_startSeq_witness:
  "[opA] \<noteq> [] \<and> (0 :: u64) \<noteq> MaxSeq (log0 []) + 1 \<and>
   Append env_ok (log0 []) [] 0 [opA] =
     ((Some ErrInvalidSequential, InternalServerError), log0 [], []) \<and>
   (5 :: u64) \<noteq> MaxSeq (log0 []) + 1 \<and> (5 :: u64) > MaxSeq (log0 []) + 1 \<and>
   Append env_ok (log0 []) [] 5 [opA] =
     ((Some ErrInvalidSequential, OperationInvalidSeqError), log0 [], []) \<and>
   (2 :: u64) \<noteq> MaxSeq log2 + 1 \<and> (0 :: u64) < 2 \<and> (2 :: u64) < MaxSeq log2 + 1 \<and>
   Append env_ok log2 [] 2 [opA] =
     ((Some ErrOperationConflict, OperationSeqConflictError), log2, [])"
proof -
  have ms0: "MaxSeq (log0 []) = 0" and ms2: "MaxSeq log2 = 2"
    by (simp_all add: eval_defs)
  have ne: "[opA] \<noteq> []" by simp
  have a: "(0 :: u64) \<noteq> MaxSeq (log0 []) + 1" and b: "(5 :: u64) \<noteq> MaxSeq (log0 []) + 1"
    and b': "(5 :: u64) > MaxSeq (log0 []) + 1"
    and c: "(2 :: u64) \<noteq> MaxSeq log2 + 1" and c': "(2 :: u64) < MaxSeq log2 + 1"
    by (simp_all add: ms0 ms2)
  from Append_wrong_startSeq [OF ne a, of env_ok "[]"]
  have 1: "Append env_ok (log0 []) [] 0 [opA] =
     ((Some ErrInvalidSequential, InternalServerError), log0 [], [])"
    by (auto simp: Append_nonempty)
  from Append_wrong_startSeq [OF ne b, of env_ok "[]"] b'
  have 2: "Append env_ok (log0 []) [] 5 [opA] =
     ((Some ErrInvalidSequential, OperationInvalidSeqError), log0 [], [])"
    by (auto simp: Append_nonempty)
  from Append_wrong_startSeq [OF ne c, of env_ok "[]"] c'
  have 3: "Append env_ok log2 [] 2 [opA] =
     ((Some ErrOperationConflict, OperationSeqConflictError), log2, [])"
    by (auto simp: Append_nonempty)
  from a b b' c c' 1 2 3 show ?thesis by simp
qed

section \<open>Retrieve outside the log\<close>

text \<open>
  C7. \<open>Retrieve(0, countLimit)\<close> fails with an internal error for every
  \<open>countLimit\<close>; for \<open>startSeq > MaxSeq()\<close> it succeeds with an empty result, a nil
  error and the None cluster error.
\<close>

theorem Retrieve_zero_and_beyond:
  "Retrieve e op 0 countLimit = ([], Some ErrInvalidBegin, InternalServerError) \<and>
   (startSeq > MaxSeq op \<longrightarrow> Retrieve e op startSeq countLimit = ([], None, NoneClusterError))"
proof -
  have "startSeq \<noteq> 0" if "startSeq > MaxSeq op"
    using that by auto
  then show ?thesis by (simp add: Retrieve_def Let_def)
qed

theorem Retrieve_zero_and_beyond_witness:
  "(3 :: u64) > MaxSeq log2 \<and> Retrieve env_ok log2 3 10 = ([], None, NoneClusterError) \<and>
   Retrieve env_ok log2 0 10 = ([], Some ErrInvalidBegin, InternalServerError)"
proof -
  have "(3 :: u64) > MaxSeq log2" by (simp add: eval_defs)
  with Retrieve_zero_and_beyond [of env_ok log2 10 3] show ?thesis by simp
qed

section \<open>Error kinds of a failed append\<close>

text \<open>
  C1. A batch that passes validation, staging and every callback, and whose commit then
  fails: \<open>Append\<close> returns the commit error with the cluster error kind
  \<open>NoneClusterError\<close>, not \<open>InternalServerError\<close>. Here the log is fresh, the batch
  is \<open>[opA, opB]\<close>, the one callback succeeds on both and the store refuses the commit.
\<close>

theorem Append_commit_failure_returns_None_kind:
  "Append env_commit_fails (log0 [cb_record]) [] 1 [opA, opB] =
     ((Some ErrCommit, NoneClusterError), log0 [cb_record], [1, 2])"
  by (simp add: eval_defs)

text \<open>
  C2. A callback that returns an error with the failure kind \<open>NoneOperationFailure\<close>:
  the switch overwrites the initial \<open>InternalServerError\<close> with the constant
  \<open>NoneOperationFailure\<close>, and \<open>Append\<close> returns the error with the None kind.
\<close>

theorem Append_callback_None_kind_returns_None_kind:
  "Append env_ok (log0 [cb_fail_none]) [] 1 [opA] =
     ((Some (ErrOperationFailed 1 ''failed''), NoneClusterError), log0 [cb_fail_none], [1])"
  by (simp add: eval_defs)

lemma append_loop_append:
  "append_loop e cbs s idx (pre @ rest) txn x =
     (case append_loop e cbs s idx pre txn x of
        (Inl err, x') \<Rightarrow> (Inl err, x')
      | (Inr txn', x') \<Rightarrow> append_loop e cbs s (idx + length pre) rest txn' x')"
  by (induction pre arbitrary: idx txn x) (auto split: option.splits prod.splits sum.splits)

text \<open>
  C8, as amended. When \<open>json.Marshal\<close> fails on an operation of the batch, the
  operations before it having gone through the loop, \<open>Append\<close> fails with the marshal
  error for that sequence number and the cluster error kind
  \<open>OperationInvalidContentError\<close>; the log comes back as it was, the live state as the
  callbacks of the earlier operations left it.
\<close>

theorem Append_marshal_failure:
  assumes "startSeq \<noteq> 0" and "startSeq = MaxSeq op + 1"
      and "append_loop e (operationAppendedCallbacks op) startSeq 0 pre
             (NewTransaction (db op) True) x = (Inr txn1, x1)"
      and "has_content operation" and "marshal e operation = None"
  shows "Append e op x startSeq (pre @ operation # post) =
           ((Some (ErrMarshal (startSeq + of_nat (length pre))), OperationInvalidContentError),
            op, x1)"
proof -
  have "append_loop e (operationAppendedCallbacks op) startSeq 0 (pre @ operation # post)
          (NewTransaction (db op) True) x =
        (Inl (ErrMarshal (startSeq + of_nat (length pre)), OperationInvalidContentError), x1)"
    using assms(3-5) by (simp add: append_loop_append)
  then show ?thesis using assms(1,2) by (simp add: Append_nonempty)
qed

text \<open>
  C8 as stated fails: with a \<open>json.Marshal\<close> that fails on \<open>opB\<close>, appending
  \<open>[opA, opB]\<close> to a fresh log returns the kind \<open>OperationInvalidContentError\<close>,
  which is not \<open>InternalServerError\<close>.
\<close>

theorem Append_marshal_failure_counterexample:
  "marshal env_marshal_fails opB = None \<and>
   fst (Append env_marshal_fails (log0 [cb_record]) [] 1 [opA, opB]) =
     (Some (ErrMarshal 2), OperationInvalidContentError) \<and>
   snd (fst (Append env_marshal_fails (log0 [cb_record]) [] 1 [opA, opB])) \<noteq> InternalServerError"
  by (simp add: eval_defs)

theorem Append_marshal_failure_witness:
  "(1 :: u64) \<noteq> 0 \<and> (1 :: u64) = MaxSeq (log0 [cb_record]) + 1 \<and>
   has_content opB \<and> marshal env_marshal_fails opB = None \<and>
   Append env_marshal_fails (log0 [cb_record]) [] 1 ([opA] @ opB # [opA]) =
     ((Some (ErrMarshal 2), OperationInvalidContentError), log0 [cb_record], [1])"
proof -
  have ms: "(1 :: u64) = MaxSeq (log0 [cb_record]) + 1"
    by (simp add: eval_defs)
  have pre: "\<exists>txn1. append_loop env_marshal_fails (operationAppendedCallbacks (log0 [cb_record])) 1 0 [opA]
               (NewTransaction (db (log0 [cb_record])) True) [] = (Inr txn1, [1])"
    by (simp add: eval_defs)
  have c: "has_content opB" and m: "marshal env_marshal_fails opB = None"
    by (simp_all add: eval_defs)
  from pre obtain txn1 where "append_loop env_marshal_fails (operationAppendedCallbacks (log0 [cb_record])) 1 0 [opA]
               (NewTransaction (db (log0 [cb_record])) True) [] = (Inr txn1, [1])" ..
  from Append_marshal_failure [OF _ ms this c m, of "[opA]"] ms c m show ?thesis by simp
qed

section \<open>A callback failure aborts the append\<close>

lemma word_less_succ:
  fixes ms :: u64
  assumes "ms + 1 \<noteq> 0"
  shows "ms < ms + 1"
proof -
  have "unat (1 + ms) = Suc (unat ms)" using assms by (intro unatSuc) (simp add: add.commute)
  then show ?thesis by (simp add: word_less_nat_alt add.commute)
qed

lemma run_callbacks_error_seq:
  "run_callbacks cbs q operation x = (Some (err, kind), x') \<Longrightarrow> \<exists>msg. err = ErrOperationFailed q msg"
proof (induction cbs arbitrary: x)
  case Nil
  then show ?case by simp
next
  case (Cons cb cbs)
  obtain r failureType x1 where cb: "cb q operation x = ((r, failureType), x1)"
    by (metis prod.collapse)
  show ?case
  proof (cases r)
    case None
    with Cons.prems cb have "run_callbacks cbs q operation x1 = (Some (err, kind), x')"
      by simp
    then show ?thesis by (rule Cons.IH)
  next
    case (Some msg)
    with Cons.prems cb show ?thesis by auto
  qed
qed

lemma append_loop_Cons_staged:
  assumes "append_loop e cbs s idx (operation # rest) txn x =
             (Inl (ErrOperationFailed seq msg, kind), x')"
  shows "\<exists>txn2. \<forall>rest'. append_loop e cbs s idx (operation # rest') txn x =
       (case run_callbacks cbs (s + of_nat idx) operation x of
          (Some err, x1) \<Rightarrow> (Inl err, x1)
        | (None, x1) \<Rightarrow> append_loop e cbs s (Suc idx) rest' txn2 x1)"
proof -
  from assms obtain opBuff txn1 ms txn2 where
    "has_content operation" "marshal e operation = Some opBuff"
    "txn_Set e txn (sprintf_d (s + of_nat idx)) opBuff = Some txn1"
    "locklessIncreaseMaxSeq e txn1 = Some (ms, txn2)"
    by (auto split: if_splits option.splits)
  then have "append_loop e cbs s idx (operation # rest') txn x =
       (case run_callbacks cbs (s + of_nat idx) operation x of
          (Some err, x1) \<Rightarrow> (Inl err, x1)
        | (None, x1) \<Rightarrow> append_loop e cbs s (Suc idx) rest' txn2 x1)" for rest'
    by simp
  then show ?thesis by blast
qed

lemma append_loop_callback_failure:
  "append_loop e cbs s idx ops txn x = (Inl (ErrOperationFailed seq msg, kind), x') \<Longrightarrow>
     \<exists>pre operation post txn1 x1.
        ops = pre @ operation # post \<and>
        append_loop e cbs s idx pre txn x = (Inr txn1, x1) \<and>
        seq = s + of_nat (idx + length pre) \<and>
        run_callbacks cbs seq operation x1 = (Some (ErrOperationFailed seq msg, kind), x')"
proof (induction ops arbitrary: idx txn x)
  case Nil
  then show ?case by simp
next
  case (Cons operation rest)
  from append_loop_Cons_staged [OF Cons.prems] obtain txn2 where step:
    "append_loop e cbs s idx (operation # rest') txn x =
       (case run_callbacks cbs (s + of_nat idx) operation x of
          (Some err, x1) \<Rightarrow> (Inl err, x1)
        | (None, x1) \<Rightarrow> append_loop e cbs s (Suc idx) rest' txn2 x1)" for rest'
    by blast
  obtain r x1 where cb: "run_callbacks cbs (s + of_nat idx) operation x = (r, x1)"
    by (cases "run_callbacks cbs (s + of_nat idx) operation x")
  show ?case
  proof (cases r)
    case None
    with Cons.prems step [of rest] cb have
      "append_loop e cbs s (Suc idx) rest txn2 x1 = (Inl (ErrOperationFailed seq msg, kind), x')"
      by simp
    from Cons.IH [OF this] obtain pre operation' post txn1 x1' where
      rest: "rest = pre @ operation' # post"
      and pre: "append_loop e cbs s (Suc idx) pre txn2 x1 = (Inr txn1, x1')"
      and seq: "seq = s + of_nat (Suc idx + length pre)"
      and fail: "run_callbacks cbs seq operation' x1' =
                  (Some (ErrOperationFailed seq msg, kind), x')"
      by blast
    have "append_loop e cbs s idx (operation # pre) txn x = (Inr txn1, x1')"
      using step [of pre] cb None pre by simp
    moreover have "operation # rest = (operation # pre) @ operation' # post"
      using rest by simp
    moreover have "seq = s + of_nat (idx + length (operation # pre))"
      using seq by simp
    ultimately show ?thesis using fail by blast
  next
    case (Some err)
    with Cons.prems step [of rest] cb have
      here: "run_callbacks cbs (s + of_nat idx) operation x =
               (Some (ErrOperationFailed seq msg, kind), x')"
      by simp
    from run_callbacks_error_seq [OF here] have "seq = s + of_nat idx" by simp
    with here show ?thesis
      by - (rule exI [of _ "[]"], rule exI [of _ operation], rule exI [of _ rest],
            rule exI [of _ txn], rule exI [of _ x], simp)
  qed
qed

lemma append_loop_callbacks_ran:
  "append_loop e cbs s idx ops txn x = (Inr txn', x') \<Longrightarrow> x' = callbacks_ran cbs s idx ops x"
proof (induction ops arbitrary: idx txn x)
  case Nil
  then show ?case by simp
next
  case (Cons operation rest)
  from Cons.prems obtain opBuff x1 where
    "run_callbacks cbs (s + of_nat idx) operation x = (None, x1)"
    "append_loop e cbs s (Suc idx) rest
       (txn\<lparr>pending := (pending txn)(sprintf_d (s + of_nat idx) \<mapsto> opBuff,
                                      maxSeqKey \<mapsto> sprintf_d (locklessReadMaxSeq txn + 1))\<rparr>) x1
     = (Inr txn', x')"
    by (rule append_loop_step)
  with Cons.IH show ?case by simp
qed

lemma Append_failure_unchanged:
  assumes "Append e op x startSeq operations = ((Some err, kind), op', x')"
  shows "op' = op"
proof (cases "operations = []")
  case True
  with assms show ?thesis by (simp add: Append_def)
next
  case False
  obtain r x1 where loop:
    "append_loop e (operationAppendedCallbacks op) startSeq 0 operations
       (NewTransaction (db op) True) x = (r, x1)"
    by (cases "append_loop e (operationAppendedCallbacks op) startSeq 0 operations
       (NewTransaction (db op) True) x")
  from assms loop show ?thesis unfolding Append_nonempty [OF False]
    by (cases r) (auto split: if_splits)
qed

text \<open>
  The callback error comes from nowhere else: when \<open>Append\<close> returns it, the batch
  splits into the operations \<open>pre\<close> that went through the loop, the operation on which
  the callbacks failed and the rest, and the log comes back as it was.
\<close>

lemma Append_callback_error_origin:
  assumes "Append e op x startSeq operations =
             ((Some (ErrOperationFailed seq msg), kind), op', x')"
  shows "op' = op \<and> MaxSeq op' = MaxSeq op \<and>
         (\<forall>n. Retrieve e op' startSeq n = ([], None, NoneClusterError)) \<and>
         (\<exists>pre operation post.
            operations = pre @ operation # post \<and>
            seq = startSeq + of_nat (length pre) \<and>
            run_callbacks (operationAppendedCallbacks op) seq operation
                (callbacks_ran (operationAppendedCallbacks op) startSeq 0 pre x) =
              (Some (ErrOperationFailed seq msg, kind), x'))"
proof -
  have same: "op' = op" using assms by (rule Append_failure_unchanged)
  have ne: "operations \<noteq> []" using assms by (auto simp: Append_def)
  note A = assms [unfolded Append_nonempty [OF ne]]
  have nz: "startSeq \<noteq> 0"
    using A by (cases "startSeq = 0") simp_all
  have ngt: "\<not> startSeq > MaxSeq op + 1"
    using A nz by (cases "startSeq > MaxSeq op + 1") simp_all
  have nlt: "\<not> startSeq < MaxSeq op + 1"
    using A nz ngt by (cases "startSeq < MaxSeq op + 1") simp_all
  have eq: "startSeq = MaxSeq op + 1"
    using ngt nlt by simp
  have beyond: "startSeq > MaxSeq op"
    using nz unfolding eq by (rule word_less_succ)
  have retr: "Retrieve e op startSeq n = ([], None, NoneClusterError)" for n
    using beyond nz by (simp add: Retrieve_def Let_def)
  obtain r x1 where loop:
    "append_loop e (operationAppendedCallbacks op) startSeq 0 operations
       (NewTransaction (db op) True) x = (r, x1)"
    by (cases "append_loop e (operationAppendedCallbacks op) startSeq 0 operations
       (NewTransaction (db op) True) x")
  from A nz ngt nlt loop have
    "r = Inl (ErrOperationFailed seq msg, kind)" "x1 = x'"
    by (cases r; auto split: if_splits)+
  with loop have "append_loop e (operationAppendedCallbacks op) startSeq 0 operations
       (NewTransaction (db op) True) x = (Inl (ErrOperationFailed seq msg, kind), x')"
    by simp
  from append_loop_callback_failure [OF this] obtain pre operation post txn1 x1' where
    split: "operations = pre @ operation # post"
    and pre: "append_loop e (operationAppendedCallbacks op) startSeq 0 pre
               (NewTransaction (db op) True) x = (Inr txn1, x1')"
    and seq: "seq = startSeq + of_nat (0 + length pre)"
    and fail: "run_callbacks (operationAppendedCallbacks op) seq operation x1' =
                 (Some (ErrOperationFailed seq msg, kind), x')"
    by blast
  from append_loop_callbacks_ran [OF pre] fail have
    "run_callbacks (operationAppendedCallbacks op) seq operation
        (callbacks_ran (operationAppendedCallbacks op) startSeq 0 pre x) =
      (Some (ErrOperationFailed seq msg, kind), x')"
    by simp
  with split seq have "\<exists>pre operation post.
            operations = pre @ operation # post \<and>
            seq = startSeq + of_nat (length pre) \<and>
            run_callbacks (operationAppendedCallbacks op) seq operation
                (callbacks_ran (operationAppendedCallbacks op) startSeq 0 pre x) =
              (Some (ErrOperationFailed seq msg, kind), x')"
    by auto
  with same retr show ?thesis by simp
qed

lemma run_callbacks_append:
  "run_callbacks (cbs1 @ cbs2) seq operation x =
     (case run_callbacks cbs1 seq operation x of
        (Some err, x') \<Rightarrow> (Some err, x')
      | (None, x') \<Rightarrow> run_callbacks cbs2 seq operation x')"
proof (induction cbs1 arbitrary: x)
  case Nil
  show ?case by simp
next
  case (Cons cb cbs1)
  obtain r failureType x1 where cb: "cb seq operation x = ((r, failureType), x1)"
    by (metis prod.collapse)
  show ?case
  proof (cases r)
    case None
    with cb Cons.IH [of x1] show ?thesis by simp
  next
    case (Some msg)
    with cb show ?thesis by simp
  qed
qed

text \<open>
  C6. If a registered callback fails on an operation of the batch, the whole \<open>Append\<close>
  is aborted. The batch is \<open>pre @ operation # post\<close>, appended at
  \<open>startSeq = MaxSeq() + 1\<close>. The operations of \<open>pre\<close> went through the loop: they
  were staged and every callback succeeded on them, leaving the live state \<open>x1\<close>. The
  operation itself has content, marshals and is staged with the max-sequence record
  increased. The callbacks \<open>cbs1\<close> registered before \<open>cb\<close> succeed on it, and \<open>cb\<close>
  returns an error. Then \<open>Append\<close> returns that error with the kind of the switch, and
  the log as it was: the transaction is discarded, no entry of the batch is persisted,
  \<open>MaxSeq()\<close> is unchanged and \<open>Retrieve\<close> from \<open>startSeq\<close> returns nothing, for any
  count. The callbacks of the earlier operations did run: \<open>x1\<close> is the live state that
  all callbacks on \<open>pre\<close> left, and the live state returned is the one \<open>cb\<close> made of
  it.
\<close>

theorem Append_callback_failure_aborts:
  assumes nz: "startSeq \<noteq> 0" and start: "startSeq = MaxSeq op + 1"
      and cbs: "operationAppendedCallbacks op = cbs1 @ cb # cbs2"
      and seq: "seq = startSeq + of_nat (length pre)"
      and pre: "append_loop e (operationAppendedCallbacks op) startSeq 0 pre
                  (NewTransaction (db op) True) x = (Inr txn1, x1)"
      and content: "has_content operation"
      and marshalled: "marshal e operation = Some opBuff"
      and staged: "txn_Set e txn1 (sprintf_d seq) opBuff = Some txn2"
      and increased: "locklessIncreaseMaxSeq e txn2 = Some (ms, txn3)"
      and earlier: "run_callbacks cbs1 seq operation x1 = (None, xa)"
      and fails: "cb seq operation xa = ((Some msg, failureType), x2)"
  shows "Append e op x startSeq (pre @ operation # post) =
           ((Some (ErrOperationFailed seq msg), clusterErrType_of failureType), op, x2) \<and>
         MaxSeq (fst (snd (Append e op x startSeq (pre @ operation # post)))) = MaxSeq op \<and>
         db (fst (snd (Append e op x startSeq (pre @ operation # post)))) = db op \<and>
         (\<forall>n. Retrieve e (fst (snd (Append e op x startSeq (pre @ operation # post))))
                startSeq n = ([], None, NoneClusterError)) \<and>
         x1 = callbacks_ran (operationAppendedCallbacks op) startSeq 0 pre x"
proof -
  let ?cbs = "operationAppendedCallbacks op"
  have run: "run_callbacks ?cbs seq operation x1 =
               (Some (ErrOperationFailed seq msg, clusterErrType_of failureType), x2)"
    using earlier fails by (simp add: cbs run_callbacks_append)
  have "append_loop e ?cbs startSeq (0 + length pre) (operation # post) txn1 x1 =
          (Inl (ErrOperationFailed seq msg, clusterErrType_of failureType), x2)"
    using content marshalled staged increased run by (simp add: seq)
  with pre have loop:
    "append_loop e ?cbs startSeq 0 (pre @ operation # post) (NewTransaction (db op) True) x =
       (Inl (ErrOperationFailed seq msg, clusterErrType_of failureType), x2)"
    by (simp add: append_loop_append)
  have ngt: "\<not> startSeq > MaxSeq op + 1" and nlt: "\<not> startSeq < MaxSeq op + 1"
    using start by simp_all
  have res: "Append e op x startSeq (pre @ operation # post) =
           ((Some (ErrOperationFailed seq msg), clusterErrType_of failureType), op, x2)"
    using nz ngt nlt loop by (simp add: Append_nonempty)
  have beyond: "startSeq > MaxSeq op"
    using nz unfolding start by (rule word_less_succ)
  have retr: "Retrieve e op startSeq n = ([], None, NoneClusterError)" for n
    using beyond nz by (simp add: Retrieve_def Let_def)
  have ran: "x1 = callbacks_ran ?cbs startSeq 0 pre x"
    using pre by (rule append_loop_callbacks_ran)
  show ?thesis using retr ran by (simp add: res)
qed

theorem Append_callback_failure_aborts_witness:
  "(1 :: u64) \<noteq> 0 \<and> (1 :: u64) = MaxSeq (log0 [cb_record, cb_fail_at_3]) + 1 \<and>
   has_content opA \<and> marshal env_ok opA = Some ''A'' \<and>
   run_callbacks [cb_record] 3 opA [1, 1, 2, 2] = (None, [1, 1, 2, 2, 3]) \<and>
   cb_fail_at_3 3 opA [1, 1, 2, 2, 3] =
     ((Some ''rejected'', OperationNotAcceptableFailure), [1, 1, 2, 2, 3, 3]) \<and>
   Append env_ok (log0 [cb_record, cb_fail_at_3]) [] 1 ([opA, opB] @ opA # [opB, opA]) =
     ((Some (ErrOperationFailed 3 ''rejected''), OperationNotAcceptableFailureError),
      log0 [cb_record, cb_fail_at_3], [1, 1, 2, 2, 3, 3]) \<and>
   MaxSeq (fst (snd (Append env_ok (log0 [cb_record, cb_fail_at_3]) [] 1
                       ([opA, opB] @ opA # [opB, opA])))) = 0 \<and>
   Retrieve env_ok (fst (snd (Append env_ok (log0 [cb_record, cb_fail_at_3]) [] 1
                       ([opA, opB] @ opA # [opB, opA])))) 1 5 = ([], None, NoneClusterError)"
proof -
  let ?log = "log0 [cb_record, cb_fail_at_3]"
  have nz: "(1 :: u64) \<noteq> 0" by simp
  have ms0: "MaxSeq ?log = 0" by (simp add: eval_defs)
  then have start: "(1 :: u64) = MaxSeq ?log + 1" by simp
  have cbs: "operationAppendedCallbacks ?log = [cb_record] @ cb_fail_at_3 # []"
    by (simp add: log0_def)
  have seq: "(3 :: u64) = 1 + of_nat (length [opA, opB])" by simp
  have "\<exists>txn1. append_loop env_ok (operationAppendedCallbacks ?log) 1 0 [opA, opB]
                 (NewTransaction (db ?log) True) [] = (Inr txn1, [1, 1, 2, 2])"
    by (simp add: eval_defs)
  then obtain txn1 where pre:
    "append_loop env_ok (operationAppendedCallbacks ?log) 1 0 [opA, opB]
       (NewTransaction (db ?log) True) [] = (Inr txn1, [1, 1, 2, 2])" ..
  have content: "has_content opA" and marshalled: "marshal env_ok opA = Some ''A''"
    by (simp_all add: eval_defs)
  have "\<exists>txn2. txn_Set env_ok txn1 (sprintf_d 3) ''A'' = Some txn2"
    by (simp add: txn_Set_def env_ok_def)
  then obtain txn2 where staged: "txn_Set env_ok txn1 (sprintf_d 3) ''A'' = Some txn2" ..
  have "\<exists>ms txn3. locklessIncreaseMaxSeq env_ok txn2 = Some (ms, txn3)"
    by (simp add: locklessIncreaseMaxSeq_def locklessWriteMaxSeq_def txn_Set_def env_ok_def
          Let_def)
  then obtain ms txn3 where increased: "locklessIncreaseMaxSeq env_ok txn2 = Some (ms, txn3)"
    by blast
  have earlier: "run_callbacks [cb_record] 3 opA [1, 1, 2, 2] = (None, [1, 1, 2, 2, 3])"
    by (simp add: cb_record_def)
  have fails: "cb_fail_at_3 3 opA [1, 1, 2, 2, 3] =
     ((Some ''rejected'', OperationNotAcceptableFailure), [1, 1, 2, 2, 3, 3])"
    by (simp add: cb_fail_at_3_def)
  have kind: "clusterErrType_of OperationNotAcceptableFailure = OperationNotAcceptableFailureError"
    by (simp add: clusterErrType_of_def)
  let ?r = "Append env_ok ?log [] 1 ([opA, opB] @ opA # [opB, opA])"
  note inst = Append_callback_failure_aborts
    [OF nz start cbs seq pre content marshalled staged increased earlier fails,
     of "[opB, opA]"]
  have res: "?r = ((Some (ErrOperationFailed 3 ''rejected''),
                    OperationNotAcceptableFailureError), ?log, [1, 1, 2, 2, 3, 3])"
    using inst [THEN conjunct1] by (simp only: kind)
  have same: "MaxSeq (fst (snd ?r)) = 0"
    using inst [THEN conjunct2, THEN conjunct1] by (simp only: ms0)
  have retr: "Retrieve env_ok (fst (snd ?r)) 1 5 = ([], None, NoneClusterError)"
    using inst [THEN conjunct2, THEN conjunct2, THEN conjunct2, THEN conjunct1]
    by (rule spec)
  show ?thesis
    by (intro conjI nz start content marshalled earlier fails res same retr)
qed

section \<open>Retrieve inside the log\<close>









section \<open>HTTP server spec validation\<close>

text \<open>
  C10. With \<open>HTTPS\<close> false, \<open>Validate\<close> returns no error whatever \<open>CertBase64\<close> and
  \<open>KeyBase64\<close> hold. With \<open>HTTPS\<close> true it returns an error when \<open>CertBase64\<close> is
  empty or \<open>KeyBase64\<close> is empty, and \<open>CertBase64\<close> is checked first: an empty
  certificate gives the certificate error even when the key is empty too.
\<close>

theorem Validate_https_cert_key:
  "(\<not> HTTPS spec \<longrightarrow> Validate lib spec = None) \<and>
   (HTTPS spec \<and> CertBase64 spec = [] \<longrightarrow> Validate lib spec = Some CertEmpty) \<and>
   (HTTPS spec \<and> CertBase64 spec \<noteq> [] \<and> KeyBase64 spec = [] \<longrightarrow>
      Validate lib spec = Some KeyEmpty)"
  by (simp add: Validate_def)


theorem Validate_https_cert_key_witness:
  "\<not> HTTPS spec_http \<and> Validate lib_reject spec_http = None \<and>
   HTTPS (spec_http\<lparr>HTTPS := True, CertBase64 := [], KeyBase64 := []\<rparr>) \<and>
   CertBase64 (spec_http\<lparr>HTTPS := True, CertBase64 := [], KeyBase64 := []\<rparr>) = [] \<and>
   Validate lib_reject (spec_http\<lparr>HTTPS := True, CertBase64 := [], KeyBase64 := []\<rparr>)
     = Some CertEmpty \<and>
   HTTPS (spec_http\<lparr>HTTPS := True\<rparr>) \<and> CertBase64 (spec_http\<lparr>HTTPS := True\<rparr>) \<noteq> [] \<and>
   KeyBase64 (spec_http\<lparr>HTTPS := True\<rparr>) = [] \<and>
   Validate lib_reject (spec_http\<lparr>HTTPS := True\<rparr>) = Some KeyEmpty"
  using Validate_https_cert_key [of spec_http lib_reject]
    Validate_https_cert_key
      [of "spec_http\<lparr>HTTPS := True, CertBase64 := [], KeyBase64 := []\<rparr>" lib_reject]
    Validate_https_cert_key [of "spec_http\<lparr>HTTPS := True\<rparr>" lib_reject]
  by (simp add: spec_http_def)

end
